theory Spec2Isabelle
  imports Main "HOL-Library.Sublist"
begin

section \<open>Python string primitives used by aiscrape.py\<close>

text \<open>
  A Python \<^verbatim>\<open>str\<close> is a \<^typ>\<open>string\<close>; Python integers are \<^typ>\<open>int\<close>.

  \<^verbatim>\<open>text.find(sub, start)\<close> with \<open>0 \<le> start\<close> returns the lowest index \<open>i \<ge> start\<close> at
  which \<open>sub\<close> occurs in \<open>text\<close>, and \<open>-1\<close> when there is none. An empty \<open>sub\<close> occurs at
  every index up to and including \<open>len(text)\<close>; a \<open>start\<close> beyond \<open>len(text)\<close> gives \<open>-1\<close>.
  \<open>find_scan sub s i\<close> scans the suffix \<open>s\<close> of the text that begins at index \<open>i\<close>.
\<close>

fun find_scan :: "string \<Rightarrow> string \<Rightarrow> nat \<Rightarrow> int" where
  "find_scan sub [] i = (if sub = [] then int i else - 1)"
| "find_scan sub (c # cs) i =
     (if take (length sub) (c # cs) = sub then int i else find_scan sub cs (Suc i))"

definition str_find :: "string \<Rightarrow> string \<Rightarrow> nat \<Rightarrow> int" where
  "str_find text sub start =
     (if length text < start then - 1 else find_scan sub (drop start text) start)"

text \<open>
  Slice bounds as Python normalises them: a negative bound counts from the end, and every
  bound is clamped into \<open>0 .. len\<close>.
\<close>

definition slice_bound :: "nat \<Rightarrow> int \<Rightarrow> nat" where
  "slice_bound n i =
     (if i < 0 then (if i + int n < 0 then 0 else nat (i + int n))
      else if int n < i then n else nat i)"

text \<open>\<^verbatim>\<open>text[lo:]\<close> and \<^verbatim>\<open>text[lo:hi]\<close>.\<close>

definition slice_from :: "string \<Rightarrow> int \<Rightarrow> string" where
  "slice_from text lo = drop (slice_bound (length text) lo) text"

definition slice :: "string \<Rightarrow> int \<Rightarrow> int \<Rightarrow> string" where
  "slice text lo hi =
     (let l = slice_bound (length text) lo; h = slice_bound (length text) hi
      in take (h - l) (drop l text))"

section \<open>extract_content\<close>

text \<open>
  \<^verbatim>\<open>
  def extract_content(text, begin, end):
      start_index = text.find(begin)
      if start_index == -1:
          return None
      start_index += len(begin)
      end_index = text.find(end, start_index)
      if end_index == -1:
          return text[start_index - len(begin) :]
      return text[start_index - len(begin) : end_index + len(end)]
  \<close>
  \<open>start_index\<close> is not negative once the first test has passed, so it is a legal
  \<open>start\<close> argument of the second \<open>find\<close>.
\<close>

definition extract_content :: "string \<Rightarrow> string \<Rightarrow> string \<Rightarrow> string option" where
  "extract_content text bgn en =
     (let start_index = str_find text bgn 0 in
      if start_index = - 1 then None
      else
        let start_index = start_index + int (length bgn);
            end_index = str_find text en (nat start_index)
        in if end_index = - 1
           then Some (slice_from text (start_index - int (length bgn)))
           else Some (slice text (start_index - int (length bgn))
                                 (end_index + int (length en))))"

section \<open>Vocabulary of the specification\<close>

text \<open>
  \<open>occurs_at text sub i\<close>: the anchor \<open>sub\<close> matches \<open>text\<close> literally at index \<open>i\<close>.
  \<open>first_match text sub start p\<close>: \<open>p\<close> is the first index at or after \<open>start\<close> where it
  does.
\<close>

definition occurs_at :: "string \<Rightarrow> string \<Rightarrow> nat \<Rightarrow> bool" where
  "occurs_at text sub i \<longleftrightarrow>
     i + length sub \<le> length text \<and> take (length sub) (drop i text) = sub"

definition first_match :: "string \<Rightarrow> string \<Rightarrow> nat \<Rightarrow> nat \<Rightarrow> bool" where
  "first_match text sub start p \<longleftrightarrow>
     start \<le> p \<and> occurs_at text sub p \<and> list_all (\<lambda>i. \<not> occurs_at text sub i) [start..<p]"

definition occurs_from :: "string \<Rightarrow> string \<Rightarrow> nat \<Rightarrow> bool" where
  "occurs_from text sub start \<longleftrightarrow> list_ex (occurs_at text sub) [start..<Suc (length text)]"

section \<open>The collaborators: HTTP, HTML flattening, the chat model, JSON\<close>

text \<open>
  The libraries \<^verbatim>\<open>requests\<close>, \<^verbatim>\<open>bs4\<close>, \<^verbatim>\<open>openai\<close> and \<^verbatim>\<open>json\<close> are not part of the
  repository. What they answer is a parameter of the model, the record \<open>world\<close>; an
  exception they raise is an \<open>error\<close> value.
\<close>

datatype error =
    RequestException string
  | HTTPError nat
  | OpenAIError string
  | JSONDecodeError string
  | KeyError string
  | IndexError

record response =
  status_code :: nat
  resp_text :: string

record world =
  openai_new :: "error option"
  requests_get :: "string \<Rightarrow> error + response"
  raise_for_status :: "response \<Rightarrow> error option"
  get_text :: "string \<Rightarrow> string"
  chat_create :: "string \<Rightarrow> string \<Rightarrow> error + string"
  json_loads :: "string \<Rightarrow> error + (string \<times> string) list"

text \<open>
  \<open>openai_new\<close> is the constructor \<^verbatim>\<open>OpenAI()\<close> (\<open>Some e\<close> when it raises);
  \<open>chat_create model text\<close> is \<^verbatim>\<open>client.chat.completions.create\<close> with the fixed system
  message of the source and \<open>text\<close> as the user message, returning
  \<^verbatim>\<open>completion.choices[0].message.content\<close>; \<open>json_loads\<close> returns the parsed dictionary
  as an association list. The anchors are strings, as the data model has them.

  Every call of a collaborator and every extraction attempt is recorded in a trace, which
  the effectful functions take and return extended.
\<close>

datatype event =
    Fetch string
  | Oracle string
  | Extract string string string
  | Print string

section \<open>get_url_text\<close>

text \<open>
  \<^verbatim>\<open>
  def get_url_text(url):
      response = requests.get(url)
      response.raise_for_status()
      soup = BeautifulSoup(response.text, "html.parser")
      return soup.get_text(separator=" ", strip=True)
  \<close>
\<close>

definition get_url_text :: "world \<Rightarrow> string \<Rightarrow> event list \<Rightarrow> (error + string) \<times> event list" where
  "get_url_text w url tr =
     (let tr = tr @ [Fetch url] in
      case requests_get w url of
        Inl e \<Rightarrow> (Inl e, tr)
      | Inr response \<Rightarrow>
          (case raise_for_status w response of
             Some e \<Rightarrow> (Inl e, tr)
           | None \<Rightarrow> (Inr (get_text w (resp_text response)), tr)))"

section \<open>class AIScrape\<close>

text \<open>
  \<^verbatim>\<open>
  def __init__(self, **kwargs):
      self.client = OpenAI()
      self.model = kwargs.get("model", "gpt-3.5-turbo")
  \<close>
\<close>

record aiscrape =
  model :: string

definition init :: "world \<Rightarrow> (string \<times> string) list \<Rightarrow> error + aiscrape" where
  "init w kwargs =
     (case openai_new w of
        Some e \<Rightarrow> Inl e
      | None \<Rightarrow>
          Inr \<lparr>model = (case map_of kwargs ''model'' of Some m \<Rightarrow> m | None \<Rightarrow> ''gpt-3.5-turbo'')\<rparr>)"

text \<open>
  \<^verbatim>\<open>
  def _begin_end(self, text):
      ...
      completion = self.client.chat.completions.create(model=self.model, messages=messages,
          response_format={"type": "json_object"})
      data = json.loads(completion.choices[0].message.content)
      return data["BEGIN"], data["END"]
  \<close>
\<close>

definition begin_end ::
  "world \<Rightarrow> aiscrape \<Rightarrow> string \<Rightarrow> event list \<Rightarrow> (error + string \<times> string) \<times> event list" where
  "begin_end w self txt tr =
     (let tr = tr @ [Oracle txt] in
      case chat_create w (model self) txt of
        Inl e \<Rightarrow> (Inl e, tr)
      | Inr content \<Rightarrow>
          (case json_loads w content of
             Inl e \<Rightarrow> (Inl e, tr)
           | Inr data \<Rightarrow>
               (case map_of data ''BEGIN'' of
                  None \<Rightarrow> (Inl (KeyError ''BEGIN''), tr)
                | Some bgn \<Rightarrow>
                    (case map_of data ''END'' of
                       None \<Rightarrow> (Inl (KeyError ''END''), tr)
                     | Some en \<Rightarrow> (Inr (bgn, en), tr)))))"

text \<open>
  \<^verbatim>\<open>
  def scrape(self, url, retries=3):
      text = get_url_text(url)
      begin, end = self._begin_end(text)
      content = None
      retries = min(0, retries)
      while content is None and retries >= 0:
          content = extract_content(text, begin, end)
          retries -= 1
      return content
  \<close>
  \<open>scrape_loop\<close> is the \<^verbatim>\<open>while\<close> loop, on the variables \<open>content\<close> and \<open>retries\<close>.
\<close>

function scrape_loop ::
  "string \<Rightarrow> string \<Rightarrow> string \<Rightarrow> string option \<Rightarrow> int \<Rightarrow> event list
     \<Rightarrow> string option \<times> event list" where
  "scrape_loop txt bgn en content retries tr =
     (if content = None \<and> retries \<ge> 0
      then scrape_loop txt bgn en (extract_content txt bgn en) (retries - 1)
             (tr @ [Extract txt bgn en])
      else (content, tr))"
  by pat_completeness auto
termination
  by (relation "measure (\<lambda>(txt, bgn, en, content, retries, tr). nat (retries + 1))") auto

declare scrape_loop.simps [simp del]

definition scrape ::
  "world \<Rightarrow> aiscrape \<Rightarrow> string \<Rightarrow> int \<Rightarrow> event list \<Rightarrow> (error + string option) \<times> event list" where
  "scrape w self url retries tr =
     (case get_url_text w url tr of
        (Inl e, tr) \<Rightarrow> (Inl e, tr)
      | (Inr txt, tr) \<Rightarrow>
          (case begin_end w self txt tr of
             (Inl e, tr) \<Rightarrow> (Inl e, tr)
           | (Inr (bgn, en), tr) \<Rightarrow>
               (let content = None;
                    retries = min 0 retries;
                    (content, tr) = scrape_loop txt bgn en content retries tr
                in (Inr content, tr))))"

section \<open>The command line\<close>

text \<open>
  \<^verbatim>\<open>
  def main():
      aiscrape = AIScrape()
      try:
          url = sys.argv[1]
      except IndexError:
          print(f"Usage: {sys.argv[0]} [url]")
          return 1
      content = aiscrape.scrape(url)
      if content is None:
          print(f"Failed to extract content url: {url}")
          return 2
      print(content)

  if __name__ == "__main__":
      main()
  \<close>
  \<open>main\<close> returns what the Python function returns: \<open>Some 1\<close>, \<open>Some 2\<close>, or \<open>None\<close>
  when it falls off its end.
\<close>

definition main :: "world \<Rightarrow> string list \<Rightarrow> event list \<Rightarrow> (error + int option) \<times> event list" where
  "main w argv tr =
     (case init w [] of
        Inl e \<Rightarrow> (Inl e, tr)
      | Inr aiscrape \<Rightarrow>
          (case argv of
             [] \<Rightarrow> (Inl IndexError, tr)
           | [prog] \<Rightarrow> (Inr (Some 1), tr @ [Print (''Usage: '' @ prog @ '' [url]'')])
           | prog # url # rest \<Rightarrow>
               (case scrape w aiscrape url 3 tr of
                  (Inl e, tr) \<Rightarrow> (Inl e, tr)
                | (Inr None, tr) \<Rightarrow>
                    (Inr (Some 2), tr @ [Print (''Failed to extract content url: '' @ url)])
                | (Inr (Some content), tr) \<Rightarrow> (Inr None, tr @ [Print content]))))"

text \<open>
  The module's last statement calls \<^verbatim>\<open>main()\<close> and drops what it returns. The exit status
  of the interpreter is 1 when an exception reaches the top level and 0 when the script
  runs to its end.
\<close>

definition run_script :: "world \<Rightarrow> string list \<Rightarrow> int \<times> event list" where
  "run_script w argv =
     (case main w argv [] of
        (Inl e, tr) \<Rightarrow> (1, tr)
      | (Inr r, tr) \<Rightarrow> (0, tr))"

section \<open>Reading a trace\<close>

fun is_fetch :: "event \<Rightarrow> bool" where
  "is_fetch (Fetch u) = True"
| "is_fetch ev = False"

fun is_oracle :: "event \<Rightarrow> bool" where
  "is_oracle (Oracle t) = True"
| "is_oracle ev = False"

fun is_extract :: "event \<Rightarrow> bool" where
  "is_extract (Extract t b e) = True"
| "is_extract ev = False"

definition fetches :: "event list \<Rightarrow> nat" where
  "fetches tr = length (filter is_fetch tr)"

definition oracle_calls :: "event list \<Rightarrow> nat" where
  "oracle_calls tr = length (filter is_oracle tr)"

definition attempts :: "event list \<Rightarrow> nat" where
  "attempts tr = length (filter is_extract tr)"

text \<open>A small world for concrete runs: one page, and a model that answers with fixed anchors.\<close>

definition page_world :: "string \<Rightarrow> string \<Rightarrow> string \<Rightarrow> world" where
  "page_world page bgn en =
     \<lparr>openai_new = None,
      requests_get = (\<lambda>url. Inr \<lparr>status_code = 200, resp_text = page\<rparr>),
      raise_for_status = (\<lambda>r. if 400 \<le> status_code r \<and> status_code r < 600
                               then Some (HTTPError (status_code r)) else None),
      get_text = (\<lambda>html. html),
      chat_create = (\<lambda>m t. Inr ''{}''),
      json_loads = (\<lambda>c. Inr [(''BEGIN'', bgn), (''END'', en)])\<rparr>"

definition down_world :: world where
  "down_world =
     (page_world [] [] [])\<lparr>requests_get := (\<lambda>url. Inl (RequestException ''timeout''))\<rparr>"

definition not_found_world :: world where
  "not_found_world =
     (page_world [] [] [])\<lparr>requests_get := (\<lambda>url. Inr \<lparr>status_code = 404, resp_text = []\<rparr>)\<rparr>"

text \<open>\<open>no_present_attempt tr\<close>: no extraction attempt recorded in \<open>tr\<close> returned a result.\<close>

fun attempt_absent :: "event \<Rightarrow> bool" where
  "attempt_absent (Extract t b e) = (extract_content t b e = None)"
| "attempt_absent ev = True"

definition no_present_attempt :: "event list \<Rightarrow> bool" where
  "no_present_attempt tr = list_all attempt_absent tr"

section \<open>What str.find returns\<close>

lemma occurs_at_Cons_Suc: "occurs_at (c # cs) sub (Suc k) \<longleftrightarrow> occurs_at cs sub k"
  by (simp add: occurs_at_def)

lemma occurs_at_Cons_0: "occurs_at (c # cs) sub 0 \<longleftrightarrow> take (length sub) (c # cs) = sub"
proof
  assume "occurs_at (c # cs) sub 0"
  then show "take (length sub) (c # cs) = sub" by (simp add: occurs_at_def)
next
  assume h: "take (length sub) (c # cs) = sub"
  have "length (take (length sub) (c # cs)) \<le> length (c # cs)" by simp
  with h have "length sub \<le> length (c # cs)" by simp
  with h show "occurs_at (c # cs) sub 0" by (simp add: occurs_at_def)
qed

lemma occurs_at_Nil: "occurs_at [] sub k \<longleftrightarrow> sub = [] \<and> k = 0"
  by (auto simp: occurs_at_def)

lemma find_scan_result:
  "(find_scan sub s i = - 1 \<and> (\<forall>k. \<not> occurs_at s sub k)) \<or>
   (\<exists>k. find_scan sub s i = int (i + k) \<and> occurs_at s sub k \<and> (\<forall>j<k. \<not> occurs_at s sub j))"
proof (induction s arbitrary: i)
  case Nil
  show ?case
  proof (cases "sub = []")
    case True
    then have "find_scan sub [] i = int (i + 0) \<and> occurs_at [] sub 0 \<and> (\<forall>j<0. \<not> occurs_at [] sub j)"
      by (simp add: occurs_at_Nil)
    then show ?thesis by blast
  next
    case False
    then show ?thesis by (simp add: occurs_at_Nil)
  qed
next
  case (Cons c cs)
  show ?case
  proof (cases "take (length sub) (c # cs) = sub")
    case True
    then have "find_scan sub (c # cs) i = int (i + 0) \<and> occurs_at (c # cs) sub 0
        \<and> (\<forall>j<0. \<not> occurs_at (c # cs) sub j)"
      by (simp add: occurs_at_Cons_0)
    then show ?thesis by blast
  next
    case False
    then have step: "find_scan sub (c # cs) i = find_scan sub cs (Suc i)" by simp
    have no0: "\<not> occurs_at (c # cs) sub 0" using False by (simp add: occurs_at_Cons_0)
    from Cons.IH [of "Suc i"] show ?thesis
    proof
      assume a: "find_scan sub cs (Suc i) = - 1 \<and> (\<forall>k. \<not> occurs_at cs sub k)"
      have "\<not> occurs_at (c # cs) sub k" for k
        using a no0 by (cases k) (simp_all add: occurs_at_Cons_Suc)
      with a step show ?thesis by simp
    next
      assume "\<exists>k. find_scan sub cs (Suc i) = int (Suc i + k) \<and> occurs_at cs sub k
          \<and> (\<forall>j<k. \<not> occurs_at cs sub j)"
      then obtain k where k: "find_scan sub cs (Suc i) = int (Suc i + k)" "occurs_at cs sub k"
          "\<forall>j<k. \<not> occurs_at cs sub j" by blast
      have "\<not> occurs_at (c # cs) sub j" if "j < Suc k" for j
        using that k(3) no0 by (cases j) (simp_all add: occurs_at_Cons_Suc)
      with k step have "find_scan sub (c # cs) i = int (i + Suc k) \<and> occurs_at (c # cs) sub (Suc k)
          \<and> (\<forall>j<Suc k. \<not> occurs_at (c # cs) sub j)"
        by (simp add: occurs_at_Cons_Suc)
      then show ?thesis by blast
    qed
  qed
qed

lemma occurs_at_drop:
  "start \<le> length text \<Longrightarrow> occurs_at (drop start text) sub k \<longleftrightarrow> occurs_at text sub (start + k)"
  by (auto simp: occurs_at_def add.commute)

lemma first_match_iff:
  "first_match text sub start p \<longleftrightarrow>
     start \<le> p \<and> occurs_at text sub p \<and> (\<forall>i. start \<le> i \<and> i < p \<longrightarrow> \<not> occurs_at text sub i)"
  by (auto simp: first_match_def list_all_iff)

lemma occurs_from_iff:
  "occurs_from text sub start \<longleftrightarrow> (\<exists>i\<ge>start. occurs_at text sub i)"
proof
  assume "occurs_from text sub start"
  then obtain i where "i \<in> set [start..<Suc (length text)]" "occurs_at text sub i"
    unfolding occurs_from_def list_ex_iff by blast
  then show "\<exists>i\<ge>start. occurs_at text sub i" by auto
next
  assume "\<exists>i\<ge>start. occurs_at text sub i"
  then obtain i where i: "start \<le> i" "occurs_at text sub i" by blast
  from i(2) have "i < Suc (length text)" by (simp add: occurs_at_def)
  with i(1) have "i \<in> set [start..<Suc (length text)]" by (simp only: set_upt atLeastLessThan_iff)
  with i(2) show "occurs_from text sub start"
    unfolding occurs_from_def list_ex_iff by blast
qed

lemma str_find_cases:
  assumes "start \<le> length text"
  shows "(str_find text sub start = - 1 \<and> \<not> occurs_from text sub start) \<or>
         (\<exists>p. str_find text sub start = int p \<and> first_match text sub start p)"
proof -
  have eq: "str_find text sub start = find_scan sub (drop start text) start"
    using assms by (simp add: str_find_def)
  from find_scan_result [of sub "drop start text" start] show ?thesis
  proof
    assume a: "find_scan sub (drop start text) start = - 1 \<and> (\<forall>k. \<not> occurs_at (drop start text) sub k)"
    have "\<not> occurs_at text sub i" if "start \<le> i" for i
    proof -
      from that obtain k where "i = start + k" using le_Suc_ex by blast
      with a assms show ?thesis by (simp add: occurs_at_drop)
    qed
    with a eq show ?thesis by (auto simp: occurs_from_iff)
  next
    assume "\<exists>k. find_scan sub (drop start text) start = int (start + k) \<and>
        occurs_at (drop start text) sub k \<and> (\<forall>j<k. \<not> occurs_at (drop start text) sub j)"
    then obtain k where k: "find_scan sub (drop start text) start = int (start + k)"
        "occurs_at (drop start text) sub k" "\<forall>j<k. \<not> occurs_at (drop start text) sub j" by blast
    have "\<not> occurs_at text sub i" if "start \<le> i" "i < start + k" for i
    proof -
      from that obtain j where "i = start + j" "j < k"
        by (metis le_Suc_ex nat_add_left_cancel_less)
      with k(3) assms show ?thesis by (simp add: occurs_at_drop)
    qed
    with k(1,2) eq assms have "str_find text sub start = int (start + k) \<and> first_match text sub start (start + k)"
      by (simp add: first_match_iff occurs_at_drop)
    then show ?thesis by blast
  qed
qed

lemma first_match_unique:
  "first_match text sub start p \<Longrightarrow> first_match text sub start q \<Longrightarrow> p = q"
  unfolding first_match_iff by (meson linorder_neqE_nat)

lemma first_match_occurs_from:
  "first_match text sub start p \<Longrightarrow> occurs_from text sub start"
  by (auto simp: first_match_iff occurs_from_iff)

lemma str_find_first_match:
  assumes "start \<le> length text" "first_match text sub start p"
  shows "str_find text sub start = int p"
  using str_find_cases [OF assms(1), of sub] assms(2)
  by (auto dest: first_match_unique first_match_occurs_from)

lemma str_find_absent:
  assumes "start \<le> length text" "\<not> occurs_from text sub start"
  shows "str_find text sub start = - 1"
  using str_find_cases [OF assms(1), of sub] assms(2)
  by (auto dest: first_match_occurs_from)

section \<open>Properties of extract_content\<close>

lemma first_match_exists:
  assumes "occurs_from text sub start" "start \<le> length text"
  shows "\<exists>p. first_match text sub start p"
  using str_find_cases [OF assms(2), of sub] assms(1) by blast

lemma occurs_at_bound: "occurs_at text sub p \<Longrightarrow> p + length sub \<le> length text"
  by (simp add: occurs_at_def)

lemma occurs_at_empty: "occurs_at text [] p \<longleftrightarrow> p \<le> length text"
  by (simp add: occurs_at_def)

lemma first_match_empty:
  "start \<le> length text \<Longrightarrow> first_match text [] start start"
  by (simp add: first_match_def occurs_at_empty)

lemma slice_bound_nat: "p \<le> n \<Longrightarrow> slice_bound n (int p) = p"
  by (simp add: slice_bound_def)

lemma slice_from_nat: "p \<le> length text \<Longrightarrow> slice_from text (int p) = drop p text"
  by (simp add: slice_from_def slice_bound_nat)

lemma slice_nat:
  "p \<le> length text \<Longrightarrow> h \<le> length text \<Longrightarrow> slice text (int p) (int h) = take (h - p) (drop p text)"
  by (simp add: slice_def slice_bound_nat)

text \<open>The three ways through \<open>extract_content\<close>.\<close>

lemma extract_content_absent:
  assumes "\<not> occurs_from text bgn 0"
  shows "extract_content text bgn en = None"
proof -
  have "str_find text bgn 0 = - 1" using assms by (simp add: str_find_absent)
  then show ?thesis by (simp add: extract_content_def)
qed

lemma extract_content_open:
  assumes b: "first_match text bgn 0 p" and e: "\<not> occurs_from text en (p + length bgn)"
  shows "extract_content text bgn en = Some (drop p text)"
proof -
  have f1: "str_find text bgn 0 = int p" using b by (simp add: str_find_first_match)
  have le: "p + length bgn \<le> length text"
    using b by (simp add: first_match_def occurs_at_bound)
  have f2: "str_find text en (p + length bgn) = - 1" using le e by (rule str_find_absent)
  have n: "nat (int p + int (length bgn)) = p + length bgn" by simp
  have s: "slice_from text (int p) = drop p text" using le by (simp add: slice_from_nat)
  show ?thesis
    unfolding extract_content_def Let_def f1 n f2 using s by simp
qed

lemma extract_content_closed:
  assumes b: "first_match text bgn 0 p" and e: "first_match text en (p + length bgn) q"
  shows "extract_content text bgn en = Some (take (q + length en - p) (drop p text))"
proof -
  have f1: "str_find text bgn 0 = int p" using b by (simp add: str_find_first_match)
  have le: "p + length bgn \<le> length text"
    using b by (simp add: first_match_def occurs_at_bound)
  have f2: "str_find text en (p + length bgn) = int q" using le e by (rule str_find_first_match)
  have le2: "q + length en \<le> length text"
    using e by (simp add: first_match_def occurs_at_bound)
  have n: "nat (int p + int (length bgn)) = p + length bgn" by simp
  have lp: "p \<le> length text" using le by simp
  have "slice text (int p) (int (q + length en)) = take (q + length en - p) (drop p text)"
    using lp le2 by (rule slice_nat)
  then have s: "slice text (int p) (int q + int (length en)) = take (q + length en - p) (drop p text)"
    by simp
  show ?thesis
    unfolding extract_content_def Let_def f1 n f2 using s by simp
qed

lemma extract_content_cases:
  "(\<not> occurs_from text bgn 0 \<and> extract_content text bgn en = None) \<or>
   (\<exists>p. first_match text bgn 0 p \<and> \<not> occurs_from text en (p + length bgn) \<and>
        extract_content text bgn en = Some (drop p text)) \<or>
   (\<exists>p q. first_match text bgn 0 p \<and> first_match text en (p + length bgn) q \<and>
        extract_content text bgn en = Some (take (q + length en - p) (drop p text)))"
proof (cases "occurs_from text bgn 0")
  case False
  then show ?thesis by (simp add: extract_content_absent)
next
  case True
  then obtain p where p: "first_match text bgn 0 p" using first_match_exists by blast
  then have le: "p + length bgn \<le> length text" by (simp add: first_match_def occurs_at_bound)
  show ?thesis
  proof (cases "occurs_from text en (p + length bgn)")
    case False
    with p show ?thesis using extract_content_open by blast
  next
    case True
    with le obtain q where "first_match text en (p + length bgn) q"
      using first_match_exists by blast
    with p show ?thesis using extract_content_closed by blast
  qed
qed

lemma take_drop_sublist: "sublist (take n (drop p xs)) xs"
proof -
  have "xs = take p xs @ take n (drop p xs) @ drop n (drop p xs)"
    by (simp only: append_take_drop_id)
  then show ?thesis unfolding sublist_def by blast
qed

lemma occurs_at_prefix:
  assumes "occurs_at text sub p" "length sub \<le> n"
  shows "prefix sub (take n (drop p text))"
proof -
  have "take (length sub) (take n (drop p text)) = sub"
    using assms by (simp add: occurs_at_def min_def)
  then show ?thesis by (metis take_is_prefix)
qed

lemma occurs_at_suffix:
  assumes "occurs_at text sub q" "p \<le> q"
  shows "suffix sub (take (q + length sub - p) (drop p text))"
proof -
  from assms(2) obtain d where d: "q = p + d" using le_Suc_ex by blast
  have "take (q + length sub - p) (drop p text) = take (d + length sub) (drop p text)"
    using d by simp
  also have "\<dots> = take d (drop p text) @ take (length sub) (drop d (drop p text))"
    by (simp add: take_add)
  also have "drop d (drop p text) = drop q text" using d by (simp add: add.commute)
  also have "take (length sub) (drop q text) = sub" using assms(1) by (simp add: occurs_at_def)
  finally show ?thesis unfolding suffix_def by blast
qed

section \<open>The claims about extract_content\<close>

text \<open>
  Claim C1. Let \<open>p\<close> be the index of the first match of \<open>begin\<close> in \<open>t\<close> (there is one
  exactly when \<open>begin\<close> occurs in \<open>t\<close>) and \<open>q\<close> the index of the first match of \<open>end\<close> at
  or after \<open>p + len(begin)\<close> (there is one exactly when \<open>end\<close> occurs there). Then
  \<open>extract_content\<close> returns the span of \<open>t\<close> from \<open>p\<close> up to \<open>q + len(end)\<close>; the result
  starts with \<open>begin\<close>, ends with \<open>end\<close>, and has length \<open>q + len(end) - p\<close>. The first
  scenario of the specification is an instance.
\<close>

theorem extract_content_between:
  "(first_match t bgn 0 p \<and> first_match t en (p + length bgn) q \<longrightarrow>
      (\<exists>r. extract_content t bgn en = Some r \<and>
           r = take (q + length en - p) (drop p t) \<and>
           prefix bgn r \<and> suffix en r \<and> length r = q + length en - p)) \<and>
   extract_content ''Header menu Home About START Hello world END Footer copyright''
     ''START Hello'' ''world END'' = Some ''START Hello world END''"
proof (intro conjI impI)
  assume h: "first_match t bgn 0 p \<and> first_match t en (p + length bgn) q"
  then have b: "first_match t bgn 0 p" and e: "first_match t en (p + length bgn) q"
    by simp_all
  let ?r = "take (q + length en - p) (drop p t)"
  have ob: "occurs_at t bgn p" and oe: "occurs_at t en q" and pq: "p + length bgn \<le> q"
    using b e by (simp_all add: first_match_def)
  have qe: "q + length en \<le> length t" using oe by (rule occurs_at_bound)
  have 1: "extract_content t bgn en = Some ?r" using b e by (rule extract_content_closed)
  have 2: "prefix bgn ?r" using ob pq by (intro occurs_at_prefix) simp_all
  have 3: "suffix en ?r" using oe pq by (intro occurs_at_suffix) simp_all
  have 4: "length ?r = q + length en - p" using qe by simp
  from 1 2 3 4 show "\<exists>r. extract_content t bgn en = Some r \<and>
           r = take (q + length en - p) (drop p t) \<and>
           prefix bgn r \<and> suffix en r \<and> length r = q + length en - p" by blast
next
  show "extract_content ''Header menu Home About START Hello world END Footer copyright''
     ''START Hello'' ''world END'' = Some ''START Hello world END''"
    by (simp add: extract_content_def str_find_def slice_def slice_bound_def)
qed

text \<open>The first scenario, obtained from the general statement.\<close>

theorem extract_content_between_witness:
  "first_match ''Header menu Home About START Hello world END Footer copyright'' ''START Hello'' 0 23 \<and>
   first_match ''Header menu Home About START Hello world END Footer copyright'' ''world END''
     (23 + length ''START Hello'') 35 \<and>
   (\<exists>r. extract_content ''Header menu Home About START Hello world END Footer copyright''
           ''START Hello'' ''world END'' = Some r \<and>
        r = ''START Hello world END'' \<and> prefix ''START Hello'' r \<and> suffix ''world END'' r \<and>
        length r = 35 + length ''world END'' - 23)"
proof -
  let ?t = "''Header menu Home About START Hello world END Footer copyright''"
  have b: "first_match ?t ''START Hello'' 0 23" by code_simp
  have e: "first_match ?t ''world END'' (23 + length ''START Hello'') 35" by code_simp
  have v: "take (35 + length ''world END'' - 23) (drop 23 ?t) = ''START Hello world END''"
    by code_simp
  from b e extract_content_between [of ?t "''START Hello''" 23 "''world END''" 35] v
  show ?thesis by simp
qed

text \<open>
  Claim C2. When \<open>begin\<close> does not occur in \<open>t\<close>, \<open>extract_content\<close> returns \<open>None\<close>, whatever
  \<open>end\<close> is; when \<open>begin\<close> occurs, the result is present. The search is literal: \<open>occurs_from\<close>
  compares characters and nothing else. The third scenario (\<open>"A B C"\<close>, \<open>"Z"\<close>) holds for
  every \<open>end\<close>.
\<close>

theorem extract_content_absent_iff:
  "(\<not> occurs_from t bgn 0 \<longrightarrow> extract_content t bgn en = None) \<and>
   (occurs_from t bgn 0 \<longrightarrow> extract_content t bgn en \<noteq> None) \<and>
   extract_content ''A B C'' ''Z'' en = None"
proof (intro conjI impI)
  assume "\<not> occurs_from t bgn 0"
  then show "extract_content t bgn en = None" by (rule extract_content_absent)
next
  assume "occurs_from t bgn 0"
  then show "extract_content t bgn en \<noteq> None"
    using extract_content_cases [of t bgn en] by auto
next
  have "\<not> occurs_from ''A B C'' ''Z'' 0" by code_simp
  then show "extract_content ''A B C'' ''Z'' en = None" by (rule extract_content_absent)
qed

text \<open>Both directions at concrete inputs.\<close>

theorem extract_content_absent_iff_witness:
  "\<not> occurs_from ''A B C'' ''Z'' 0 \<and> extract_content ''A B C'' ''Z'' ''C'' = None \<and>
   occurs_from ''A B C'' ''B'' 0 \<and> extract_content ''A B C'' ''B'' ''C'' \<noteq> None \<and>
   \<not> occurs_from ''A B C'' ''b'' 0 \<and> extract_content ''A B C'' ''b'' ''C'' = None"
proof -
  have a: "\<not> occurs_from ''A B C'' ''Z'' 0" by code_simp
  have b: "occurs_from ''A B C'' ''B'' 0" by code_simp
  have c: "\<not> occurs_from ''A B C'' ''b'' 0" by code_simp
  from a b c extract_content_absent_iff [of "''A B C''" "''Z''" "''C''"]
    extract_content_absent_iff [of "''A B C''" "''B''" "''C''"]
    extract_content_absent_iff [of "''A B C''" "''b''" "''C''"]
  show ?thesis by simp
qed

text \<open>
  Claim C3 says that an empty \<open>end\<close> anchor gives the suffix from the first \<open>begin\<close> match.
  It does not: \<open>find\<close> finds the empty string at the index where its search starts, so
  the second branch is taken and the result is \<open>begin\<close> alone.
\<close>

theorem extract_content_empty_end_counterexample:
  "first_match ''A B C D E'' ''C'' 0 4 \<and>
   extract_content ''A B C D E'' ''C'' [] = Some ''C'' \<and>
   extract_content ''A B C D E'' ''C'' [] \<noteq> Some (drop 4 ''A B C D E'')"
  by code_simp

text \<open>
  Claim C3, amended. When \<open>end\<close> does not occur in \<open>t\<close> at or after \<open>p + len(begin)\<close>, where
  \<open>p\<close> is the index of the first \<open>begin\<close> match, \<open>extract_content\<close> returns the suffix of \<open>t\<close>
  from \<open>p\<close>. With an empty \<open>end\<close> it returns \<open>begin\<close> itself. The second scenario
  (\<open>"A B C D E"\<close>, \<open>"C"\<close>, \<open>"Z"\<close>) gives \<open>"C D E"\<close>.
\<close>

theorem extract_content_suffix:
  "(first_match t bgn 0 p \<and> \<not> occurs_from t en (p + length bgn) \<longrightarrow>
      extract_content t bgn en = Some (drop p t)) \<and>
   (first_match t bgn 0 p \<longrightarrow> extract_content t bgn [] = Some bgn) \<and>
   extract_content ''A B C D E'' ''C'' ''Z'' = Some ''C D E''"
proof (intro conjI impI)
  assume "first_match t bgn 0 p \<and> \<not> occurs_from t en (p + length bgn)"
  then show "extract_content t bgn en = Some (drop p t)"
    using extract_content_open by blast
next
  assume b: "first_match t bgn 0 p"
  then have ob: "occurs_at t bgn p" by (simp add: first_match_def)
  then have le: "p + length bgn \<le> length t" by (rule occurs_at_bound)
  then have "first_match t [] (p + length bgn) (p + length bgn)" by (rule first_match_empty)
  with b have "extract_content t bgn [] =
      Some (take (p + length bgn + length ([]::string) - p) (drop p t))"
    by (rule extract_content_closed)
  moreover have "take (p + length bgn + length ([]::string) - p) (drop p t) = bgn"
    using ob by (simp add: occurs_at_def)
  ultimately show "extract_content t bgn [] = Some bgn" by simp
next
  show "extract_content ''A B C D E'' ''C'' ''Z'' = Some ''C D E''" by code_simp
qed

text \<open>The amended statement at the second scenario and at the empty anchor.\<close>

theorem extract_content_suffix_witness:
  "first_match ''A B C D E'' ''C'' 0 4 \<and> \<not> occurs_from ''A B C D E'' ''Z'' (4 + length ''C'') \<and>
   extract_content ''A B C D E'' ''C'' ''Z'' = Some ''C D E'' \<and>
   extract_content ''A B C D E'' ''C'' [] = Some ''C''"
proof -
  have b: "first_match ''A B C D E'' ''C'' 0 4" by code_simp
  have e: "\<not> occurs_from ''A B C D E'' ''Z'' (4 + length ''C'')" by code_simp
  from b e extract_content_suffix [of "''A B C D E''" "''C''" 4 "''Z''"]
  show ?thesis by simp
qed

text \<open>
  Claim C5 says that a present result is never empty. With an empty \<open>begin\<close> and an empty
  \<open>end\<close> both searches succeed at index 0 and the result is the empty string, which is
  present (it is not \<open>None\<close>).
\<close>

theorem extract_content_empty_result_counterexample:
  "extract_content ''abc'' [] [] = Some []"
  by code_simp

text \<open>
  Claim C5, amended. A present result is a contiguous substring of \<open>t\<close>. It is empty
  exactly when \<open>begin\<close> is empty and either \<open>end\<close> or \<open>t\<close> is empty; in particular it is not
  empty when \<open>begin\<close> is not.
\<close>

theorem extract_content_sublist:
  "extract_content t bgn en = Some r \<longrightarrow>
     sublist r t \<and> (r = [] \<longleftrightarrow> bgn = [] \<and> (en = [] \<or> t = []))"
proof
  assume r: "extract_content t bgn en = Some r"
  from extract_content_cases [of t bgn en]
  show "sublist r t \<and> (r = [] \<longleftrightarrow> bgn = [] \<and> (en = [] \<or> t = []))"
  proof (elim disjE exE conjE)
    assume "extract_content t bgn en = None"
    with r show ?thesis by simp
  next
    fix p
    assume b: "first_match t bgn 0 p" and e: "\<not> occurs_from t en (p + length bgn)"
      and x: "extract_content t bgn en = Some (drop p t)"
    from x r have req: "r = drop p t" by simp
    have ob: "occurs_at t bgn p" using b by (simp add: first_match_def)
    then have le: "p + length bgn \<le> length t" by (rule occurs_at_bound)
    have en: "en \<noteq> []"
    proof
      assume "en = []"
      with le have "first_match t en (p + length bgn) (p + length bgn)"
        by (simp add: first_match_empty)
      with e show False by (auto dest: first_match_occurs_from)
    qed
    have sub: "sublist r t" unfolding req by (rule sublist_drop)
    have "r = [] \<longleftrightarrow> bgn = [] \<and> t = []"
    proof
      assume "r = []"
      with req have pl: "length t \<le> p" by simp
      with le have "length bgn = 0" by arith
      then have bn: "bgn = []" by simp
      have "p = 0"
        using b bn first_match_unique [of t bgn 0 p 0] first_match_empty [of 0 t] by simp
      with bn pl show "bgn = [] \<and> t = []" by simp
    next
      assume "bgn = [] \<and> t = []"
      with req show "r = []" by simp
    qed
    with sub en show ?thesis by simp
  next
    fix p q
    assume b: "first_match t bgn 0 p" and e: "first_match t en (p + length bgn) q"
      and x: "extract_content t bgn en = Some (take (q + length en - p) (drop p t))"
    from x r have req: "r = take (q + length en - p) (drop p t)" by simp
    have pq: "p + length bgn \<le> q" and oe: "occurs_at t en q"
      using e by (simp_all add: first_match_def)
    have qe: "q + length en \<le> length t" using oe by (rule occurs_at_bound)
    have len: "length r = q + length en - p" unfolding req using qe by simp
    have sub: "sublist r t" unfolding req by (rule take_drop_sublist)
    have "r = [] \<longleftrightarrow> bgn = [] \<and> (en = [] \<or> t = [])"
    proof
      assume "r = []"
      with len have "q + length en \<le> p" by simp
      with pq have "length bgn = 0" and "length en = 0" by arith+
      then show "bgn = [] \<and> (en = [] \<or> t = [])" by simp
    next
      assume a: "bgn = [] \<and> (en = [] \<or> t = [])"
      have p0: "p = 0"
        using b a first_match_unique [of t bgn 0 p 0] first_match_empty [of 0 t] by simp
      have "q = 0 \<and> en = []"
      proof (cases "en = []")
        case True
        then show ?thesis
          using e a p0 first_match_unique [of t en 0 q 0] first_match_empty [of 0 t] by simp
      next
        case False
        with a qe show ?thesis by simp
      qed
      with len p0 show "r = []" by simp
    qed
    with sub show ?thesis by simp
  qed
qed

text \<open>A present, non-empty result.\<close>

theorem extract_content_sublist_witness:
  "extract_content ''A B C D E'' ''C'' ''Z'' = Some ''C D E'' \<and> sublist ''C D E'' ''A B C D E'' \<and>
   ''C D E'' \<noteq> []"
proof -
  have x: "extract_content ''A B C D E'' ''C'' ''Z'' = Some ''C D E''" by code_simp
  from x extract_content_sublist [of "''A B C D E''" "''C''" "''Z''" "''C D E''"]
  show ?thesis by simp
qed

section \<open>The loop and the calls of scrape\<close>

lemma scrape_loop_stop:
  "\<not> (content = None \<and> 0 \<le> retries) \<Longrightarrow> scrape_loop t bgn en content retries tr = (content, tr)"
  by (subst scrape_loop.simps) auto

lemma scrape_loop_step:
  "0 \<le> retries \<Longrightarrow>
   scrape_loop t bgn en None retries tr =
     scrape_loop t bgn en (extract_content t bgn en) (retries - 1) (tr @ [Extract t bgn en])"
  by (subst scrape_loop.simps) simp

lemma scrape_loop_zero:
  "scrape_loop t bgn en None 0 tr = (extract_content t bgn en, tr @ [Extract t bgn en])"
  by (simp add: scrape_loop_step scrape_loop_stop)

lemma scrape_loop_result:
  "fst (scrape_loop t bgn en content retries tr) =
     (if content = None \<and> 0 \<le> retries then extract_content t bgn en else content)"
proof (induction t bgn en content retries tr rule: scrape_loop.induct)
  case (1 t bgn en content retries tr)
  show ?case
  proof (cases "content = None \<and> 0 \<le> retries")
    case False
    then have "scrape_loop t bgn en content retries tr = (content, tr)"
      by (rule scrape_loop_stop)
    with False show ?thesis by auto
  next
    case True
    then have "scrape_loop t bgn en content retries tr =
        scrape_loop t bgn en (extract_content t bgn en) (retries - 1) (tr @ [Extract t bgn en])"
      by (simp add: scrape_loop_step)
    with "1.IH" [OF True] True show ?thesis by auto
  qed
qed

lemma scrape_loop_trace:
  "\<exists>k. snd (scrape_loop t bgn en content retries tr) = tr @ replicate k (Extract t bgn en)"
proof (induction t bgn en content retries tr rule: scrape_loop.induct)
  case (1 t bgn en content retries tr)
  show ?case
  proof (cases "content = None \<and> 0 \<le> retries")
    case False
    then have "snd (scrape_loop t bgn en content retries tr) = tr @ replicate 0 (Extract t bgn en)"
      by (simp add: scrape_loop_stop)
    then show ?thesis by blast
  next
    case True
    then have eq: "scrape_loop t bgn en content retries tr =
        scrape_loop t bgn en (extract_content t bgn en) (retries - 1) (tr @ [Extract t bgn en])"
      by (simp add: scrape_loop_step)
    from "1.IH" [OF True] obtain k where
      "snd (scrape_loop t bgn en (extract_content t bgn en) (retries - 1) (tr @ [Extract t bgn en]))
         = (tr @ [Extract t bgn en]) @ replicate k (Extract t bgn en)" by blast
    with eq have "snd (scrape_loop t bgn en content retries tr) = tr @ replicate (Suc k) (Extract t bgn en)"
      by simp
    then show ?thesis by blast
  qed
qed

lemma get_url_text_trace: "snd (get_url_text w url tr) = tr @ [Fetch url]"
  by (simp add: get_url_text_def Let_def split: sum.splits option.splits)

lemma begin_end_trace: "snd (begin_end w self t tr) = tr @ [Oracle t]"
  by (simp add: begin_end_def Let_def split: sum.splits option.splits)

lemma get_url_text_fails:
  "requests_get w url = Inl e \<or>
     (\<exists>response. requests_get w url = Inr response \<and> raise_for_status w response = Some e)
   \<longleftrightarrow> fst (get_url_text w url tr) = Inl e"
  by (auto simp: get_url_text_def Let_def split: sum.splits option.splits)

lemma scrape_fetch_error:
  assumes "fst (get_url_text w url tr) = Inl e"
  shows "scrape w self url retries tr = (Inl e, tr @ [Fetch url])"
proof -
  have "get_url_text w url tr = (Inl e, tr @ [Fetch url])"
    using assms get_url_text_trace [of w url tr] by (simp add: prod_eq_iff)
  then show ?thesis by (simp add: scrape_def)
qed

lemma scrape_oracle_error:
  assumes "fst (get_url_text w url tr) = Inr t" "fst (begin_end w self t (tr @ [Fetch url])) = Inl e"
  shows "scrape w self url retries tr = (Inl e, tr @ [Fetch url, Oracle t])"
proof -
  have g: "get_url_text w url tr = (Inr t, tr @ [Fetch url])"
    using assms(1) get_url_text_trace [of w url tr] by (simp add: prod_eq_iff)
  have "begin_end w self t (tr @ [Fetch url]) = (Inl e, tr @ [Fetch url, Oracle t])"
    using assms(2) begin_end_trace [of w self t "tr @ [Fetch url]"] by (simp add: prod_eq_iff)
  with g show ?thesis by (simp add: scrape_def)
qed

lemma scrape_anchors:
  assumes "fst (get_url_text w url tr) = Inr t"
    "fst (begin_end w self t (tr @ [Fetch url])) = Inr (bgn, en)"
  shows "scrape w self url retries tr =
     (if 0 \<le> retries
      then (Inr (extract_content t bgn en), tr @ [Fetch url, Oracle t, Extract t bgn en])
      else (Inr None, tr @ [Fetch url, Oracle t]))"
proof -
  have g: "get_url_text w url tr = (Inr t, tr @ [Fetch url])"
    using assms(1) get_url_text_trace [of w url tr] by (simp add: prod_eq_iff)
  have b: "begin_end w self t (tr @ [Fetch url]) = (Inr (bgn, en), tr @ [Fetch url, Oracle t])"
    using assms(2) begin_end_trace [of w self t "tr @ [Fetch url]"] by (simp add: prod_eq_iff)
  show ?thesis
  proof (cases "0 \<le> retries")
    case True
    then have "min 0 retries = 0" by simp
    with g b True show ?thesis by (simp add: scrape_def scrape_loop_zero)
  next
    case False
    then have "min 0 retries = retries" by simp
    with g b False show ?thesis by (simp add: scrape_def scrape_loop_stop)
  qed
qed

section \<open>The claims about scrape and the command line\<close>

text \<open>
  Claim C4 bounds the number of extraction attempts by the requested \<open>retries\<close>. With
  \<open>retries = 0\<close> the loop still runs once: the first attempt is not a retry.
\<close>

theorem scrape_attempts_counterexample:
  "scrape (page_world ''A B C'' ''B'' ''C'') \<lparr>model = ''gpt-3.5-turbo''\<rparr> ''http://example.org'' 0 [] =
     (Inr (Some ''B C''),
      [Fetch ''http://example.org'', Oracle ''A B C'', Extract ''A B C'' ''B'' ''C'']) \<and>
   \<not> int (attempts [Fetch ''http://example.org'', Oracle ''A B C'', Extract ''A B C'' ''B'' ''C'']) \<le> 0"
  by code_simp

text \<open>
  Claim C4, amended. A call of \<open>scrape\<close> makes at most \<open>1 + max(0, retries)\<close> extraction
  attempts (and at least zero). When it returns and no attempt gave a result, it returns
  \<open>None\<close>; in particular it returns \<open>None\<close> when the fetch and the oracle succeed and the
  oracle's \<open>begin\<close> anchor does not occur in the fetched text.
\<close>

theorem scrape_attempts_bounded:
  "int (attempts (snd (scrape w self url retries []))) \<le> 1 + max 0 retries \<and>
   (scrape w self url retries [] = (Inr content, tr) \<and> no_present_attempt tr \<longrightarrow> content = None) \<and>
   (fst (get_url_text w url []) = Inr t \<and> fst (begin_end w self t [Fetch url]) = Inr (bgn, en) \<and>
      \<not> occurs_from t bgn 0 \<longrightarrow> fst (scrape w self url retries []) = Inr None)"
proof (intro conjI impI)
  show "int (attempts (snd (scrape w self url retries []))) \<le> 1 + max 0 retries"
  proof (cases "fst (get_url_text w url [])")
    case (Inl e)
    then show ?thesis using scrape_fetch_error [of w url "[]" e self retries]
      by (simp add: attempts_def)
  next
    case (Inr t')
    show ?thesis
    proof (cases "fst (begin_end w self t' [Fetch url])")
      case (Inl e)
      with Inr show ?thesis using scrape_oracle_error [of w url "[]" t' self e retries]
        by (simp add: attempts_def)
    next
      case (Inr a)
      obtain b' e' where "a = (b', e')" by (cases a)
      with Inr \<open>fst (get_url_text w url []) = Inr t'\<close> show ?thesis
        using scrape_anchors [of w url "[]" t' self b' e' retries]
        by (simp add: attempts_def)
    qed
  qed
next
  assume h: "scrape w self url retries [] = (Inr content, tr) \<and> no_present_attempt tr"
  show "content = None"
  proof (cases "fst (get_url_text w url [])")
    case (Inl e)
    with h show ?thesis using scrape_fetch_error [of w url "[]" e self retries] by simp
  next
    case (Inr t')
    show ?thesis
    proof (cases "fst (begin_end w self t' [Fetch url])")
      case (Inl e)
      with Inr h show ?thesis using scrape_oracle_error [of w url "[]" t' self e retries] by simp
    next
      case (Inr a)
      obtain b' e' where "a = (b', e')" by (cases a)
      with Inr \<open>fst (get_url_text w url []) = Inr t'\<close> h show ?thesis
        using scrape_anchors [of w url "[]" t' self b' e' retries]
        by (auto simp: no_present_attempt_def split: if_splits)
    qed
  qed
next
  assume h: "fst (get_url_text w url []) = Inr t \<and>
    fst (begin_end w self t [Fetch url]) = Inr (bgn, en) \<and> \<not> occurs_from t bgn 0"
  then have "extract_content t bgn en = None" by (simp add: extract_content_absent)
  with h show "fst (scrape w self url retries []) = Inr None"
    using scrape_anchors [of w url "[]" t self bgn en retries] by simp
qed

text \<open>An oracle whose \<open>begin\<close> anchor is not in the page, with the default budget.\<close>

theorem scrape_attempts_bounded_witness:
  "scrape (page_world ''A B C'' ''Z'' ''C'') \<lparr>model = ''gpt-3.5-turbo''\<rparr> ''http://example.org'' 3 [] =
     (Inr None, [Fetch ''http://example.org'', Oracle ''A B C'', Extract ''A B C'' ''Z'' ''C'']) \<and>
   no_present_attempt [Fetch ''http://example.org'', Oracle ''A B C'', Extract ''A B C'' ''Z'' ''C''] \<and>
   \<not> occurs_from ''A B C'' ''Z'' 0 \<and>
   int (attempts (snd (scrape (page_world ''A B C'' ''Z'' ''C'') \<lparr>model = ''gpt-3.5-turbo''\<rparr>
          ''http://example.org'' 3 []))) \<le> 1 + max 0 3 \<and>
   fst (scrape (page_world ''A B C'' ''Z'' ''C'') \<lparr>model = ''gpt-3.5-turbo''\<rparr>
          ''http://example.org'' 3 []) = Inr None"
proof -
  let ?w = "page_world ''A B C'' ''Z'' ''C''"
  let ?self = "\<lparr>model = ''gpt-3.5-turbo''\<rparr>"
  let ?tr = "[Fetch ''http://example.org'', Oracle ''A B C'', Extract ''A B C'' ''Z'' ''C'']"
  have s: "scrape ?w ?self ''http://example.org'' 3 [] = (Inr None, ?tr)" by code_simp
  have n: "no_present_attempt ?tr" by code_simp
  have g: "fst (get_url_text ?w ''http://example.org'' []) = Inr ''A B C''" by code_simp
  have b: "fst (begin_end ?w ?self ''A B C'' [Fetch ''http://example.org'']) = Inr (''Z'', ''C'')"
    by code_simp
  have o: "\<not> occurs_from ''A B C'' ''Z'' 0" by code_simp
  from s n g b o
    scrape_attempts_bounded [of ?w ?self "''http://example.org''" 3 None ?tr "''A B C''" "''Z''" "''C''"]
  show ?thesis by simp
qed

text \<open>
  Claim C6 says that for every \<open>retries \<ge> 0\<close> exactly one extraction attempt is made, and
  that for every \<open>retries < 0\<close> the call returns \<open>None\<close>. When the fetch raises, the loop is
  never reached: no attempt is made, and the call ends with the exception instead of
  returning.
\<close>

theorem scrape_clamp_counterexample:
  "scrape down_world \<lparr>model = ''gpt-3.5-turbo''\<rparr> ''http://example.org'' 3 [] =
     (Inl (RequestException ''timeout''), [Fetch ''http://example.org'']) \<and>
   attempts [Fetch ''http://example.org''] \<noteq> 1 \<and>
   scrape down_world \<lparr>model = ''gpt-3.5-turbo''\<rparr> ''http://example.org'' (- 1) [] =
     (Inl (RequestException ''timeout''), [Fetch ''http://example.org'']) \<and>
   Inl (RequestException ''timeout'') \<noteq> (Inr None :: error + string option)"
  by code_simp

text \<open>
  Claim C6, amended. The budget is clamped with \<open>min 0 retries\<close>. For \<open>retries \<ge> 0\<close> the call
  behaves as with \<open>retries = 0\<close> (same result, same trace, from any starting trace). For
  \<open>retries < 0\<close> it makes no extraction attempt, whatever the fetch and the oracle do. When
  the fetch gives a text \<open>t\<close> and the oracle gives anchors \<open>(bgn, en)\<close>: for \<open>retries \<ge> 0\<close>
  exactly one attempt is made and its result returned; for \<open>retries < 0\<close> no attempt is
  made and \<open>None\<close> is returned, whatever \<open>t\<close> and the anchors are. When the fetch or the
  oracle raises, no attempt is made, whatever \<open>retries\<close> is.
\<close>

theorem scrape_clamp:
  "(0 \<le> retries \<longrightarrow> scrape w self url retries tr = scrape w self url 0 tr) \<and>
   (retries < 0 \<longrightarrow> attempts (snd (scrape w self url retries [])) = 0) \<and>
   (fst (get_url_text w url []) = Inr t \<and> fst (begin_end w self t [Fetch url]) = Inr (bgn, en) \<longrightarrow>
      (0 \<le> retries \<longrightarrow>
         attempts (snd (scrape w self url retries [])) = 1 \<and>
         scrape w self url retries [] =
           (Inr (extract_content t bgn en), [Fetch url, Oracle t, Extract t bgn en])) \<and>
      (retries < 0 \<longrightarrow>
         attempts (snd (scrape w self url retries [])) = 0 \<and>
         scrape w self url retries [] = (Inr None, [Fetch url, Oracle t]))) \<and>
   (fst (get_url_text w url []) = Inl e \<longrightarrow>
      attempts (snd (scrape w self url retries [])) = 0 \<and>
      scrape w self url retries [] = (Inl e, [Fetch url])) \<and>
   (fst (get_url_text w url []) = Inr t \<and> fst (begin_end w self t [Fetch url]) = Inl e \<longrightarrow>
      attempts (snd (scrape w self url retries [])) = 0 \<and>
      scrape w self url retries [] = (Inl e, [Fetch url, Oracle t]))"
proof (intro conjI impI)
  assume "0 \<le> retries"
  then have m: "min 0 retries = min 0 (0::int)" by simp
  show "scrape w self url retries tr = scrape w self url 0 tr"
    by (simp only: scrape_def m)
next
  assume r: "retries < 0"
  show "attempts (snd (scrape w self url retries [])) = 0"
  proof (cases "fst (get_url_text w url [])")
    case (Inl e')
    then show ?thesis using scrape_fetch_error [of w url "[]" e' self retries]
      by (simp add: attempts_def)
  next
    case (Inr t')
    show ?thesis
    proof (cases "fst (begin_end w self t' [Fetch url])")
      case (Inl e')
      with Inr show ?thesis using scrape_oracle_error [of w url "[]" t' self e' retries]
        by (simp add: attempts_def)
    next
      case right: (Inr a)
      obtain b' e' where "a = (b', e')" by (cases a)
      with Inr right r show ?thesis
        using scrape_anchors [of w url "[]" t' self b' e' retries]
        by (simp add: attempts_def)
    qed
  qed
next
  assume h: "fst (get_url_text w url []) = Inr t \<and> fst (begin_end w self t [Fetch url]) = Inr (bgn, en)"
    and r: "0 \<le> retries"
  from h r show "scrape w self url retries [] =
      (Inr (extract_content t bgn en), [Fetch url, Oracle t, Extract t bgn en])"
    using scrape_anchors [of w url "[]" t self bgn en retries] by simp
  then show "attempts (snd (scrape w self url retries [])) = 1"
    by (simp add: attempts_def)
next
  assume h: "fst (get_url_text w url []) = Inr t \<and> fst (begin_end w self t [Fetch url]) = Inr (bgn, en)"
    and r: "retries < 0"
  from h r show "scrape w self url retries [] = (Inr None, [Fetch url, Oracle t])"
    using scrape_anchors [of w url "[]" t self bgn en retries] by simp
  then show "attempts (snd (scrape w self url retries [])) = 0"
    by (simp add: attempts_def)
next
  assume "fst (get_url_text w url []) = Inl e"
  then show "scrape w self url retries [] = (Inl e, [Fetch url])"
    using scrape_fetch_error [of w url "[]" e self retries] by simp
  then show "attempts (snd (scrape w self url retries [])) = 0"
    by (simp add: attempts_def)
next
  assume "fst (get_url_text w url []) = Inr t \<and> fst (begin_end w self t [Fetch url]) = Inl e"
  then show "scrape w self url retries [] = (Inl e, [Fetch url, Oracle t])"
    using scrape_oracle_error [of w url "[]" t self e retries] by simp
  then show "attempts (snd (scrape w self url retries [])) = 0"
    by (simp add: attempts_def)
qed

text \<open>
  Budgets 3 and -1 on a page where the anchors match, and on a server that does not
  answer.
\<close>

theorem scrape_clamp_witness:
  "scrape (page_world ''A B C'' ''B'' ''C'') \<lparr>model = ''gpt-3.5-turbo''\<rparr> ''http://example.org'' 3 [] =
     scrape (page_world ''A B C'' ''B'' ''C'') \<lparr>model = ''gpt-3.5-turbo''\<rparr> ''http://example.org'' 0 [] \<and>
   scrape (page_world ''A B C'' ''B'' ''C'') \<lparr>model = ''gpt-3.5-turbo''\<rparr> ''http://example.org'' 3 [] =
     (Inr (Some ''B C''), [Fetch ''http://example.org'', Oracle ''A B C'', Extract ''A B C'' ''B'' ''C'']) \<and>
   attempts (snd (scrape (page_world ''A B C'' ''B'' ''C'') \<lparr>model = ''gpt-3.5-turbo''\<rparr>
     ''http://example.org'' 3 [])) = 1 \<and>
   scrape (page_world ''A B C'' ''B'' ''C'') \<lparr>model = ''gpt-3.5-turbo''\<rparr> ''http://example.org'' (- 1) [] =
     (Inr None, [Fetch ''http://example.org'', Oracle ''A B C'']) \<and>
   attempts (snd (scrape (page_world ''A B C'' ''B'' ''C'') \<lparr>model = ''gpt-3.5-turbo''\<rparr>
     ''http://example.org'' (- 1) [])) = 0 \<and>
   attempts (snd (scrape down_world \<lparr>model = ''gpt-3.5-turbo''\<rparr> ''http://example.org'' (- 1) [])) = 0 \<and>
   attempts (snd (scrape down_world \<lparr>model = ''gpt-3.5-turbo''\<rparr> ''http://example.org'' 3 [])) = 0"
proof -
  let ?w = "page_world ''A B C'' ''B'' ''C''"
  let ?self = "\<lparr>model = ''gpt-3.5-turbo''\<rparr>"
  have g: "fst (get_url_text ?w ''http://example.org'' []) = Inr ''A B C''" by code_simp
  have b: "fst (begin_end ?w ?self ''A B C'' [Fetch ''http://example.org'']) = Inr (''B'', ''C'')"
    by code_simp
  have x: "extract_content ''A B C'' ''B'' ''C'' = Some ''B C''" by code_simp
  have d: "fst (get_url_text down_world ''http://example.org'' []) = Inl (RequestException ''timeout'')"
    by code_simp
  have h: "fst (get_url_text ?w ''http://example.org'' []) = Inr ''A B C'' \<and>
      fst (begin_end ?w ?self ''A B C'' [Fetch ''http://example.org'']) = Inr (''B'', ''C'')"
    using g b by simp
  have p: "(0::int) \<le> 3" and n: "(- 1::int) < 0" by simp_all
  note c3 = scrape_clamp [of 3 ?w ?self "''http://example.org''" "[]" "''A B C''" "''B''" "''C''" IndexError]
  note c1 = scrape_clamp [of "- 1" ?w ?self "''http://example.org''" "[]" "''A B C''" "''B''" "''C''" IndexError]
  note d1 = scrape_clamp [of "- 1" down_world ?self "''http://example.org''" "[]" "[]" "[]" "[]"
      "RequestException ''timeout''"]
  note d3 = scrape_clamp [of 3 down_world ?self "''http://example.org''" "[]" "[]" "[]" "[]"
      "RequestException ''timeout''"]
  have 1: "scrape ?w ?self ''http://example.org'' 3 [] = scrape ?w ?self ''http://example.org'' 0 []"
    using c3 [THEN conjunct1, THEN mp, OF p] .
  have 2: "attempts (snd (scrape ?w ?self ''http://example.org'' 3 [])) = 1 \<and>
      scrape ?w ?self ''http://example.org'' 3 [] =
        (Inr (extract_content ''A B C'' ''B'' ''C''),
         [Fetch ''http://example.org'', Oracle ''A B C'', Extract ''A B C'' ''B'' ''C''])"
    using c3 [THEN conjunct2, THEN conjunct2, THEN conjunct1, THEN mp, OF h,
        THEN conjunct1, THEN mp, OF p] .
  have 3: "attempts (snd (scrape ?w ?self ''http://example.org'' (- 1) [])) = 0 \<and>
      scrape ?w ?self ''http://example.org'' (- 1) [] =
        (Inr None, [Fetch ''http://example.org'', Oracle ''A B C''])"
    using c1 [THEN conjunct2, THEN conjunct2, THEN conjunct1, THEN mp, OF h,
        THEN conjunct2, THEN mp, OF n] .
  have 4: "attempts (snd (scrape down_world ?self ''http://example.org'' (- 1) [])) = 0"
    using d1 [THEN conjunct2, THEN conjunct1, THEN mp, OF n] .
  have 5: "attempts (snd (scrape down_world ?self ''http://example.org'' 3 [])) = 0"
    using d3 [THEN conjunct2, THEN conjunct2, THEN conjunct2, THEN conjunct1, THEN mp, OF d,
        THEN conjunct1] .
  note 2 = 2 [unfolded x]
  from 1 2 3 4 5 show ?thesis by blast
qed




text \<open>
  Claim C8. When the fetch fails with \<open>e\<close>, be it \<^verbatim>\<open>requests.get\<close> raising or
  \<^verbatim>\<open>raise_for_status\<close> raising on the response, \<open>scrape\<close> ends with the same \<open>e\<close>, and its
  trace is the single fetch: no second fetch, no oracle call, no extraction attempt.
\<close>

theorem scrape_fetch_failure:
  "requests_get w url = Inl e \<or>
     (\<exists>response. requests_get w url = Inr response \<and> raise_for_status w response = Some e) \<longrightarrow>
   scrape w self url retries [] = (Inl e, [Fetch url]) \<and>
   fetches [Fetch url] = 1 \<and> oracle_calls [Fetch url] = 0 \<and> attempts [Fetch url] = 0"
proof
  assume "requests_get w url = Inl e \<or>
     (\<exists>response. requests_get w url = Inr response \<and> raise_for_status w response = Some e)"
  then have "fst (get_url_text w url []) = Inl e"
    using get_url_text_fails [of w url e "[]"] by blast
  then have "scrape w self url retries [] = (Inl e, [] @ [Fetch url])" by (rule scrape_fetch_error)
  then show "scrape w self url retries [] = (Inl e, [Fetch url]) \<and>
      fetches [Fetch url] = 1 \<and> oracle_calls [Fetch url] = 0 \<and> attempts [Fetch url] = 0"
    by (simp add: fetches_def oracle_calls_def attempts_def)
qed

text \<open>A transport error and a 404 response.\<close>

theorem scrape_fetch_failure_witness:
  "requests_get down_world ''http://example.org'' = Inl (RequestException ''timeout'') \<and>
   scrape down_world \<lparr>model = ''gpt-3.5-turbo''\<rparr> ''http://example.org'' 3 [] =
     (Inl (RequestException ''timeout''), [Fetch ''http://example.org'']) \<and>
   requests_get not_found_world ''http://example.org'' = Inr \<lparr>status_code = 404, resp_text = []\<rparr> \<and>
   raise_for_status not_found_world \<lparr>status_code = 404, resp_text = []\<rparr> = Some (HTTPError 404) \<and>
   scrape not_found_world \<lparr>model = ''gpt-3.5-turbo''\<rparr> ''http://example.org'' 3 [] =
     (Inl (HTTPError 404), [Fetch ''http://example.org''])"
proof -
  let ?self = "\<lparr>model = ''gpt-3.5-turbo''\<rparr>"
  have a: "requests_get down_world ''http://example.org'' = Inl (RequestException ''timeout'')"
    by (simp add: down_world_def page_world_def)
  have b: "requests_get not_found_world ''http://example.org'' = Inr \<lparr>status_code = 404, resp_text = []\<rparr>"
    by (simp add: not_found_world_def page_world_def)
  have c: "raise_for_status not_found_world \<lparr>status_code = 404, resp_text = []\<rparr> = Some (HTTPError 404)"
    by (simp add: not_found_world_def page_world_def)
  from a b c
    scrape_fetch_failure [of down_world "''http://example.org''" "RequestException ''timeout''" ?self 3]
    scrape_fetch_failure [of not_found_world "''http://example.org''" "HTTPError 404" ?self 3]
  show ?thesis by simp
qed

text \<open>
  Claim C9 expects the exit status 1 when the URL is missing and 2 when nothing was
  extracted. \<open>main\<close> returns 1 and 2 in these cases and prints the messages, but the script
  calls \<^verbatim>\<open>main()\<close> without passing the value to \<^verbatim>\<open>sys.exit\<close>: the exit status is 0 in
  both runs.
\<close>

theorem main_return_value_dropped:
  "main (page_world ''A B C'' ''Z'' ''C'') [''aiscrape.py''] [] =
     (Inr (Some 1), [Print ''Usage: aiscrape.py [url]'']) \<and>
   run_script (page_world ''A B C'' ''Z'' ''C'') [''aiscrape.py''] =
     (0, [Print ''Usage: aiscrape.py [url]'']) \<and>
   main (page_world ''A B C'' ''Z'' ''C'') [''aiscrape.py'', ''http://example.org''] [] =
     (Inr (Some 2),
      [Fetch ''http://example.org'', Oracle ''A B C'', Extract ''A B C'' ''Z'' ''C'',
       Print ''Failed to extract content url: http://example.org'']) \<and>
   run_script (page_world ''A B C'' ''Z'' ''C'') [''aiscrape.py'', ''http://example.org''] =
     (0,
      [Fetch ''http://example.org'', Oracle ''A B C'', Extract ''A B C'' ''Z'' ''C'',
       Print ''Failed to extract content url: http://example.org''])"
  by code_simp

end
